theory Spec2Isabelle
  imports Main
begin

section \<open>The collaborative editor core of collab\_service.py\<close>

text \<open>
  The development embeds \<^verbatim>\<open>services/collab-editor/collab_service.py\<close>: the
  dataclass \<^verbatim>\<open>Operation\<close>, the class \<^verbatim>\<open>Document\<close> with
  \<^verbatim>\<open>apply_operation\<close>, the static method \<^verbatim>\<open>OperationalTransform.transform\<close>
  and \<^verbatim>\<open>CollaborativeSession\<close> with \<^verbatim>\<open>process_operation\<close>.

  Conventions. A Python \<^verbatim>\<open>str\<close> is a \<open>string\<close>; only its length and its slices
  are used, so one list element stands for one code point. A Python \<^verbatim>\<open>int\<close> is an
  \<open>int\<close>. Values have the types the dataclass annotates (\<^verbatim>\<open>position: int\<close>,
  \<^verbatim>\<open>content: str\<close>). Two classes share the attribute names \<^verbatim>\<open>content\<close>,
  \<^verbatim>\<open>version\<close> and \<^verbatim>\<open>id\<close>; the fields of an operation carry the prefix
  \<open>op_\<close>, the identifiers the name of their class.
\<close>

subsection \<open>Python slices\<close>

text \<open>
  \<^verbatim>\<open>s[:i]\<close> and \<^verbatim>\<open>s[i:]\<close> never raise for an integer \<open>i\<close>: a negative
  index counts from the end, and the result is clamped to \<open>[0, len(s)]\<close>.
\<close>

definition slice_index :: "int \<Rightarrow> nat \<Rightarrow> nat" where
  "slice_index i n =
     (if i < 0 then (if int n + i < 0 then 0 else nat (int n + i))
      else (if int n < i then n else nat i))"

definition slice_to :: "string \<Rightarrow> int \<Rightarrow> string" where
  "slice_to s i = take (slice_index i (length s)) s"

definition slice_from :: "string \<Rightarrow> int \<Rightarrow> string" where
  "slice_from s i = drop (slice_index i (length s)) s"

subsection \<open>Data model\<close>

record user =
  user_ident :: string
  username :: string
  cursor_position :: int
  connected_at :: nat

record operation =
  op_type :: string
  position :: int
  op_content :: string
  user_id :: string
  op_version :: int
  timestamp :: nat

record document =
  doc_id :: string
  content :: string
  version :: int
  operations_history :: "operation list"

text \<open>\<^verbatim>\<open>Document.__init__(doc_id, initial_content="")\<close>.\<close>

definition Document_init :: "string \<Rightarrow> string \<Rightarrow> document" where
  "Document_init d initial_content =
     \<lparr>doc_id = d, content = initial_content, version = 0, operations_history = []\<rparr>"

subsection \<open>Document.apply\_operation\<close>

text \<open>
  The body of the \<^verbatim>\<open>try\<close> block slices and concatenates strings and takes a
  length; for an integer position and a string payload none of these raises, so the
  handler that returns \<^verbatim>\<open>False\<close> is never entered and the method returns
  \<^verbatim>\<open>True\<close>. An operation whose type is neither \<^verbatim>\<open>'insert'\<close> nor
  \<^verbatim>\<open>'delete'\<close> skips both branches and falls through to the two statements that
  bump the version and extend the history. The result is the returned flag and the
  document after the call.
\<close>

definition apply_operation :: "document \<Rightarrow> operation \<Rightarrow> bool \<times> document" where
  "apply_operation d operation =
     (let c =
        (if op_type operation = ''insert'' then
           slice_to (content d) (position operation) @ op_content operation
             @ slice_from (content d) (position operation)
         else if op_type operation = ''delete'' then
           (let end_pos = position operation + int (length (op_content operation))
            in slice_to (content d) (position operation) @ slice_from (content d) end_pos)
         else content d)
      in (True, d\<lparr>content := c, version := version d + 1,
                 operations_history := operations_history d @ [operation]\<rparr>))"

text \<open>The document after a call, and after a sequence of calls in order.\<close>

definition after :: "document \<Rightarrow> operation \<Rightarrow> document" where
  "after d operation = snd (apply_operation d operation)"

fun apply_all :: "document \<Rightarrow> operation list \<Rightarrow> document" where
  "apply_all d [] = d"
| "apply_all d (x # xs) = apply_all (after d x) xs"

subsection \<open>OperationalTransform.transform\<close>

text \<open>
  The method assigns to \<^verbatim>\<open>op2.position\<close> and returns \<^verbatim>\<open>op2\<close>.
  \<open>transform_op\<close> is the value the object \<^verbatim>\<open>op2\<close> holds when the method returns,
  from the values both arguments hold at the call.
\<close>

definition transform_op :: "operation \<Rightarrow> operation \<Rightarrow> operation" where
  "transform_op op1 op2 =
     (if op_type op1 = ''insert'' \<and> op_type op2 = ''insert'' then
        (if position op1 \<le> position op2
         then op2\<lparr>position := position op2 + int (length (op_content op1))\<rparr>
         else op2)
      else if op_type op1 = ''delete'' \<and> op_type op2 = ''insert'' then
        (if position op1 < position op2
         then op2\<lparr>position := position op2 - int (length (op_content op1))\<rparr>
         else op2)
      else if op_type op1 = ''insert'' \<and> op_type op2 = ''delete'' then
        (if position op1 \<le> position op2
         then op2\<lparr>position := position op2 + int (length (op_content op1))\<rparr>
         else op2)
      else op2)"

text \<open>
  Operations are objects, and the method works on references. A store gives every
  reference the object it denotes; the call returns the store after the assignment
  and the reference it hands back, which is its second argument.
\<close>

type_synonym ref = nat
type_synonym store = "ref \<Rightarrow> operation"

definition transform :: "store \<Rightarrow> ref \<Rightarrow> ref \<Rightarrow> store \<times> ref" where
  "transform h r1 r2 = (h(r2 := transform_op (h r1) (h r2)), r2)"

subsection \<open>CollaborativeSession\<close>

record session =
  session_id :: string
  document :: document
  users :: "string \<rightharpoonup> user"
  pending_operations :: "operation list"

definition CollaborativeSession_init :: "string \<Rightarrow> string \<Rightarrow> session" where
  "CollaborativeSession_init sid document_id =
     \<lparr>session_id = sid, document = Document_init document_id [],
      users = Map.empty, pending_operations = []\<rparr>"

text \<open>The dictionary \<^verbatim>\<open>process_operation\<close> returns.\<close>

datatype result = Success operation int string | Failure string

text \<open>
  The loop over \<^verbatim>\<open>self.pending_operations\<close>. The submitted operation is a fresh
  object, as the gateway builds one per message, so no pending entry is the object
  being rewritten.
\<close>

fun transform_pending :: "operation list \<Rightarrow> operation \<Rightarrow> operation" where
  "transform_pending [] transformed_op = transformed_op"
| "transform_pending (pending_op # rest) transformed_op =
     transform_pending rest (transform_op pending_op transformed_op)"

definition process_operation :: "session \<Rightarrow> operation \<Rightarrow> session \<times> result" where
  "process_operation s operation =
     (let transformed_op = transform_pending (pending_operations s) operation;
          (success, d) = apply_operation (document s) transformed_op
      in if success
         then (s\<lparr>document := d\<rparr>, Success transformed_op (version d) (content d))
         else (s\<lparr>document := d\<rparr>, Failure ''Failed to apply operation''))"


subsection \<open>Notions of the specification\<close>

text \<open>
  The specification's invariant on an operation, against the content it is applied to:
  the position is not negative; an insertion point lies in \<open>[0, len]\<close>, and the
  range of a deletion, whose length is that of its payload, ends within the content.
\<close>

definition valid_op :: "string \<Rightarrow> operation \<Rightarrow> bool" where
  "valid_op c x =
     (if op_type x = ''insert'' then 0 \<le> position x \<and> position x \<le> int (length c)
      else if op_type x = ''delete'' then
        0 \<le> position x \<and> position x + int (length (op_content x)) \<le> int (length c)
      else False)"

text \<open>
  Two operations that do not meet: two insertions at different positions, or an
  insertion and a deletion where the insertion point is not strictly inside the
  deleted range.
\<close>

definition outside :: "operation \<Rightarrow> operation \<Rightarrow> bool" where
  "outside i x =
     (position i \<le> position x \<or> position x + int (length (op_content x)) \<le> position i)"

definition apart :: "operation \<Rightarrow> operation \<Rightarrow> bool" where
  "apart a b =
     (if op_type a = ''insert'' \<and> op_type b = ''insert'' then position a \<noteq> position b
      else if op_type a = ''insert'' \<and> op_type b = ''delete'' then outside a b
      else if op_type a = ''delete'' \<and> op_type b = ''insert'' then outside b a
      else False)"


text \<open>
  Replaying a log: the operations are applied in order to a document that starts with
  the given content; the specification starts from empty content.
\<close>

definition replay_from :: "string \<Rightarrow> operation list \<Rightarrow> string" where
  "replay_from c0 log = content (apply_all (Document_init [] c0) log)"

definition replay :: "operation list \<Rightarrow> string" where
  "replay log = replay_from [] log"

subsection \<open>Concrete operations and documents\<close>

text \<open>\<^verbatim>\<open>Operation(type, position, content, user_id, version)\<close>, with the time stamp given.\<close>

definition Operation_init ::
  "string \<Rightarrow> int \<Rightarrow> string \<Rightarrow> string \<Rightarrow> int \<Rightarrow> nat \<Rightarrow> operation" where
  "Operation_init t p c u v ts =
     \<lparr>op_type = t, position = p, op_content = c, user_id = u, op_version = v, timestamp = ts\<rparr>"

definition ins_hello :: operation where
  "ins_hello = Operation_init ''insert'' 0 ''hello'' ''user1'' 0 0"

definition doc_hello :: document where
  "doc_hello = \<lparr>doc_id = ''doc'', content = ''hello'', version = 1,
                 operations_history = [ins_hello]\<rparr>"

definition ins_hi :: operation where
  "ins_hi = Operation_init ''insert'' 0 ''hi '' ''user2'' 0 1"

definition ins_A :: operation where
  "ins_A = Operation_init ''insert'' 1 ''A'' ''user1'' 0 0"

definition ins_B :: operation where
  "ins_B = Operation_init ''insert'' 1 ''B'' ''user2'' 0 0"

definition ins_C :: operation where
  "ins_C = Operation_init ''insert'' 2 ''C'' ''user2'' 0 0"

definition doc_xy :: document where
  "doc_xy = Document_init ''doc'' ''xy''"

definition ins_left :: operation where
  "ins_left = Operation_init ''insert'' 0 ''L'' ''alice'' 0 0"

definition ins_right :: operation where
  "ins_right = Operation_init ''insert'' 0 ''R'' ''bob'' 0 0"

definition doc_empty :: document where
  "doc_empty = Document_init ''doc'' []"

definition doc_hello_world :: document where
  "doc_hello_world = Document_init ''doc'' ''hello world''"

definition del_hello1 :: operation where
  "del_hello1 = Operation_init ''delete'' 0 ''hello'' ''user1'' 0 0"

definition del_hello2 :: operation where
  "del_hello2 = Operation_init ''delete'' 0 ''hello'' ''user2'' 0 1"

definition ins_XX :: operation where
  "ins_XX = Operation_init ''insert'' 2 ''XX'' ''user2'' 0 1"

definition doc_abc :: document where
  "doc_abc = Document_init ''doc'' ''abc''"

definition ins_far :: operation where
  "ins_far = Operation_init ''insert'' 10 ''X'' ''user1'' 0 0"

definition del_far :: operation where
  "del_far = Operation_init ''delete'' 2 ''cdef'' ''user1'' 0 0"

definition op_replace :: operation where
  "op_replace = Operation_init ''replace'' 0 ''zz'' ''user1'' 0 0"

definition ins_neg :: operation where
  "ins_neg = Operation_init ''insert'' (- 1) ''X'' ''user1'' 0 0"

definition store_ab :: store where
  "store_ab = (\<lambda>r. ins_right)(0 := ins_left)"

section \<open>Basic facts\<close>

lemma apply_operation_flag: "fst (apply_operation d x) = True"
  by (simp add: apply_operation_def Let_def)

lemma after_version: "version (after d x) = version d + 1"
  by (simp add: after_def apply_operation_def Let_def)

lemma after_history: "operations_history (after d x) = operations_history d @ [x]"
  by (simp add: after_def apply_operation_def Let_def)

lemma apply_all_version: "version (apply_all d xs) = version d + int (length xs)"
  by (induction xs arbitrary: d) (simp_all add: after_version)

lemma apply_all_history:
  "operations_history (apply_all d xs) = operations_history d @ xs"
  by (induction xs arbitrary: d) (simp_all add: after_history)

lemmas ex_defs = Operation_init_def ins_hello_def doc_hello_def ins_hi_def ins_A_def ins_B_def
  ins_C_def doc_xy_def ins_left_def ins_right_def doc_empty_def doc_hello_world_def
  del_hello1_def del_hello2_def ins_XX_def doc_abc_def ins_far_def del_far_def op_replace_def
  ins_neg_def store_ab_def

lemmas run_defs = after_def apply_operation_def transform_op_def slice_to_def slice_from_def
  slice_index_def Document_init_def Let_def

lemma after_content_other:
  "op_type x \<noteq> ''insert'' \<Longrightarrow> op_type x \<noteq> ''delete'' \<Longrightarrow> content (after d x) = content d"
  by (simp add: after_def apply_operation_def Let_def)



lemma process_operation_document:
  "document (fst (process_operation s x))
     = after (document s) (transform_pending (pending_operations s) x)"
  by (simp add: process_operation_def after_def Let_def apply_operation_def split: prod.splits)

lemma process_operation_result:
  "snd (process_operation s x) =
     Success (transform_pending (pending_operations s) x) (version (document s) + 1)
       (content (after (document s) (transform_pending (pending_operations s) x)))"
  by (simp add: process_operation_def after_def Let_def apply_operation_def split: prod.splits)


subsection \<open>Slices and content\<close>

lemma slice_beyond:
  "int (length s) \<le> i \<Longrightarrow> slice_to s i = s \<and> slice_from s i = []"
  by (auto simp add: slice_to_def slice_from_def slice_index_def)

lemma slice_negative:
  "i < 0 \<Longrightarrow> slice_to s i = take (nat (int (length s) + i)) s
     \<and> slice_from s i = drop (nat (int (length s) + i)) s"
  by (simp add: slice_to_def slice_from_def slice_index_def)

lemma after_content_cong: "content d = content d' \<Longrightarrow> content (after d x) = content (after d' x)"
  by (simp add: after_def apply_operation_def Let_def)

lemma apply_all_content_cong:
  "content d = content d' \<Longrightarrow> content (apply_all d xs) = content (apply_all d' xs)"
proof (induction xs arbitrary: d d')
  case Nil
  then show ?case by simp
next
  case (Cons x xs)
  from Cons.prems have "content (after d x) = content (after d' x)"
    by (rule after_content_cong)
  then show ?case using Cons.IH [of "after d x" "after d' x"] by simp
qed

lemma after_insert_at:
  "op_type x = ''insert'' \<Longrightarrow> content d = l @ r \<Longrightarrow> position x = int (length l) \<Longrightarrow>
     content (after d x) = l @ op_content x @ r"
  by (simp add: after_def apply_operation_def Let_def slice_to_def slice_from_def
        slice_index_def)

lemma after_delete_at:
  "op_type x = ''delete'' \<Longrightarrow> content d = l @ m @ r \<Longrightarrow> position x = int (length l) \<Longrightarrow>
     length (op_content x) = length m \<Longrightarrow> content (after d x) = l @ r"
  by (simp add: after_def apply_operation_def Let_def slice_to_def slice_from_def
        slice_index_def)

lemma split_at:
  "p \<le> length c \<Longrightarrow> \<exists>l r. c = l @ r \<and> length l = p"
  by (rule exI [of _ "take p c"], rule exI [of _ "drop p c"]) simp

lemma split_at2:
  assumes "p \<le> q" "q \<le> length c"
  shows "\<exists>l m r. c = l @ m @ r \<and> length l = p \<and> length m = q - p"
proof -
  from assms obtain l r' where c: "c = l @ r'" and l: "length l = p"
    using split_at [of p c] by auto
  from assms c l have "q - p \<le> length r'" by simp
  then obtain m r where r: "r' = m @ r" and m: "length m = q - p"
    using split_at [of "q - p" r'] by auto
  from c r l m show ?thesis by blast
qed

lemma transform_op_other:
  "op_type x \<noteq> ''insert'' \<Longrightarrow> op_type x \<noteq> ''delete'' \<Longrightarrow> transform_op p x = x"
  by (simp add: transform_op_def)

lemma transform_pending_other:
  "op_type x \<noteq> ''insert'' \<Longrightarrow> op_type x \<noteq> ''delete'' \<Longrightarrow> transform_pending ps x = x"
  by (induction ps) (simp_all add: transform_op_other)

section \<open>Version and history\<close>



section \<open>The sequencing loop\<close>



section \<open>Transforming in place\<close>

text \<open>
  C3, as the specification states it: \<open>transform\<close> leaves both arguments as they were
  and returns a new object. In the source the reference returned is the second
  argument, and the object behind it has moved from position 0 to position 1.
\<close>

theorem transform_purity_counterexample:
  "snd (transform store_ab 0 1) = 1
   \<and> position (store_ab 1) = 0
   \<and> position (fst (transform store_ab 0 1) 1) = 1"
  by (simp add: transform_def transform_op_def ex_defs)

text \<open>
  C3, amended: for two distinct objects, \<open>transform\<close> returns its second argument
  itself; the first argument and every other object are unchanged, and of the second
  argument only the field \<open>position\<close> may differ from before the call.
\<close>

theorem transform_in_place:
  "r1 \<noteq> r2 \<Longrightarrow>
   snd (transform h r1 r2) = r2
   \<and> fst (transform h r1 r2) r1 = h r1
   \<and> (\<forall>r. r \<noteq> r2 \<longrightarrow> fst (transform h r1 r2) r = h r)
   \<and> fst (transform h r1 r2) r2 = (h r2)\<lparr>position := position (fst (transform h r1 r2) r2)\<rparr>"
  by (simp add: transform_def transform_op_def)

theorem transform_in_place_witness:
  "(0::nat) \<noteq> 1 \<and> snd (transform store_ab 0 1) = 1
   \<and> fst (transform store_ab 0 1) 0 = ins_left
   \<and> fst (transform store_ab 0 1) 1 = ins_right\<lparr>position := 1\<rparr>"
proof -
  have p: "position (fst (transform store_ab 0 1) 1) = 1"
    by (simp add: transform_def transform_op_def ex_defs)
  have s: "store_ab 0 = ins_left" "store_ab 1 = ins_right"
    by (simp_all add: store_ab_def)
  from transform_in_place [of 0 1 store_ab] p s show ?thesis by simp
qed

section \<open>Two deletions\<close>

text \<open>
  C5. The specification shrinks the second of two concurrent deletions by its overlap
  with the first, down to a deletion of nothing. The source has no branch for two
  deletions: the second is returned as it came, and on \<open>''hello world''\<close> two
  deletions of \<open>''hello''\<close> at position 0 remove ten characters.
\<close>

theorem delete_delete_unchanged:
  "transform_op del_hello1 del_hello2 = del_hello2
   \<and> content (after doc_hello_world del_hello1) = '' world''
   \<and> content (after (after doc_hello_world del_hello1) (transform_op del_hello1 del_hello2))
       = ''d''"
  by (simp add: ex_defs run_defs)

section \<open>An insertion inside a deleted range\<close>

text \<open>
  C7. The specification keeps the position of a transformed operation at or above
  zero. The source subtracts the whole length of the deletion from an insertion point
  behind its start: the insertion at 2, transformed against the deletion of
  \<open>''hello''\<close> at 0, has position \<open>- 3\<close>, which the slices of
  \<^verbatim>\<open>apply_operation\<close> count from the end of the content.
\<close>

theorem delete_insert_negative:
  "valid_op (content doc_hello_world) del_hello1
   \<and> valid_op (content doc_hello_world) ins_XX
   \<and> position (transform_op del_hello1 ins_XX) = - 3
   \<and> content (after (after doc_hello_world del_hello1) (transform_op del_hello1 ins_XX))
       = '' woXXrld''"
  by (simp add: valid_op_def ex_defs run_defs)

section \<open>Replay\<close>

text \<open>
  The history holds the operations applied, in order, and the content after a call
  depends on the content before it and on the operation only. So a replay that starts
  from the content the document was created with gives, for every \<open>v\<close> up to the
  number of calls, the content after the first \<open>v\<close> calls.
\<close>

lemma replay_from_initial:
  assumes "v \<le> length xs"
  shows "version (apply_all (Document_init i c0) (take v xs)) = int v
     \<and> replay_from c0 (take v (operations_history (apply_all (Document_init i c0) xs)))
         = content (apply_all (Document_init i c0) (take v xs))"
proof -
  have h: "operations_history (apply_all (Document_init i c0) xs) = xs"
    by (simp add: apply_all_history Document_init_def)
  have c: "content (Document_init [] c0) = content (Document_init i c0)"
    by (simp add: Document_init_def)
  have v: "version (apply_all (Document_init i c0) (take v xs)) = int v"
    using assms by (simp add: apply_all_version Document_init_def)
  have "replay_from c0 (take v xs) = content (apply_all (Document_init i c0) (take v xs))"
    unfolding replay_from_def by (rule apply_all_content_cong [OF c])
  with h v show ?thesis by simp
qed

text \<open>
  C8, as the specification states it: for every document reached by a sequence of
  calls of \<^verbatim>\<open>apply_operation\<close> and every \<open>v\<close> up to its version, replaying the
  first \<open>v\<close> entries of its history from empty content gives the content it had at
  version \<open>v\<close>. The constructor takes an initial content: the document created with
  \<open>''abc''\<close>, after one insertion, holds \<open>''abcX''\<close> at version 1, and the replay
  of its history from empty content gives \<open>''X''\<close>.
\<close>

theorem replay_counterexample:
  "doc_abc = Document_init ''doc'' ''abc''
   \<and> version (apply_all doc_abc [ins_far]) = 1
   \<and> operations_history (apply_all doc_abc [ins_far]) = [ins_far]
   \<and> content (apply_all doc_abc [ins_far]) = ''abcX''
   \<and> replay (take 1 (operations_history (apply_all doc_abc [ins_far]))) = ''X''"
  by (simp add: replay_def replay_from_def ex_defs run_defs)

text \<open>
  C8, amended: a document created with any initial content and brought to its state by
  a sequence of calls of \<^verbatim>\<open>apply_operation\<close>: for every \<open>v\<close> up to its version,
  the document had version \<open>v\<close> after the first \<open>v\<close> calls, and replaying the first
  \<open>v\<close> entries of its history from the initial content gives the content it had
  then. The initial content is empty by default, and there the replay starts from
  empty content.
\<close>

theorem replay_determinism:
  "int v \<le> version (apply_all (Document_init i c0) xs) \<Longrightarrow>
     version (apply_all (Document_init i c0) (take v xs)) = int v
     \<and> replay_from c0 (take v (operations_history (apply_all (Document_init i c0) xs)))
         = content (apply_all (Document_init i c0) (take v xs))"
proof -
  assume "int v \<le> version (apply_all (Document_init i c0) xs)"
  then have "v \<le> length xs"
    by (simp add: apply_all_version Document_init_def)
  then show ?thesis
    by (rule replay_from_initial)
qed

theorem replay_determinism_witness:
  "int 1 \<le> version (apply_all (Document_init ''doc'' []) [ins_hello, ins_hi])
   \<and> replay_from []
        (take 1 (operations_history (apply_all (Document_init ''doc'' []) [ins_hello, ins_hi])))
       = ''hello''
   \<and> content (apply_all (Document_init ''doc'' []) [ins_hello, ins_hi]) = ''hi hello''
   \<and> int 1 \<le> version (apply_all (Document_init ''doc'' ''abc'') [ins_far])
   \<and> replay_from ''abc''
        (take 1 (operations_history (apply_all (Document_init ''doc'' ''abc'') [ins_far])))
       = ''abcX''"
proof -
  have a: "int 1 \<le> version (apply_all (Document_init ''doc'' []) [ins_hello, ins_hi])"
    "int 1 \<le> version (apply_all (Document_init ''doc'' ''abc'') [ins_far])"
    by (simp_all add: after_version Document_init_def)
  have b: "content (apply_all (Document_init ''doc'' []) (take 1 [ins_hello, ins_hi])) = ''hello''"
    "content (apply_all (Document_init ''doc'' ''abc'') (take 1 [ins_far])) = ''abcX''"
    by (simp_all add: ex_defs run_defs)
  have c: "content (apply_all (Document_init ''doc'' []) [ins_hello, ins_hi]) = ''hi hello''"
    by (simp add: ex_defs run_defs)
  from replay_determinism [OF a(1)] replay_determinism [OF a(2)] a b c
  show ?thesis by simp
qed

section \<open>Positions out of range\<close>

text \<open>
  C6, as the specification states it: an operation whose position lies outside the
  content is rejected and the document stays as it was. In the source the insertion
  at position 10 into \<open>''abc''\<close> returns \<^verbatim>\<open>True\<close>, appends the payload, bumps the
  version and is logged.
\<close>

theorem out_of_range_counterexample:
  "\<not> valid_op (content doc_abc) ins_far
   \<and> apply_operation doc_abc ins_far
       = (True, \<lparr>doc_id = ''doc'', content = ''abcX'', version = 1, operations_history = [ins_far]\<rparr>)"
  by (simp add: valid_op_def ex_defs run_defs)

text \<open>
  C6, amended: \<^verbatim>\<open>apply_operation\<close> rejects nothing. Every call returns
  \<^verbatim>\<open>True\<close>, adds one to the version and appends the operation to the history. The
  slices clamp a range that leaves the content: an insertion at or behind the end
  appends the payload, and a deletion from a position that is not negative, whose
  range reaches or passes the end, removes everything from that position on.
\<close>

theorem apply_operation_clamps:
  "fst (apply_operation d x) = True
   \<and> version (after d x) = version d + 1
   \<and> operations_history (after d x) = operations_history d @ [x]
   \<and> (op_type x = ''insert'' \<and> int (length (content d)) \<le> position x \<longrightarrow>
        content (after d x) = content d @ op_content x)
   \<and> (op_type x = ''delete'' \<and> 0 \<le> position x
        \<and> int (length (content d)) \<le> position x + int (length (op_content x)) \<longrightarrow>
        content (after d x) = take (nat (position x)) (content d))"
proof -
  have ins: "content (after d x) = content d @ op_content x"
    if "op_type x = ''insert''" "int (length (content d)) \<le> position x"
    using that by (simp add: after_def apply_operation_def Let_def slice_beyond)
  have del: "content (after d x) = take (nat (position x)) (content d)"
    if "op_type x = ''delete''" "0 \<le> position x"
      "int (length (content d)) \<le> position x + int (length (op_content x))"
  proof -
    have "slice_to (content d) (position x) = take (nat (position x)) (content d)"
      using that(2) by (simp add: slice_to_def slice_index_def)
    moreover have "slice_from (content d) (position x + int (length (op_content x))) = []"
      using that(3) by (simp add: slice_beyond)
    ultimately show ?thesis
      using that(1) by (simp add: after_def apply_operation_def Let_def)
  qed
  show ?thesis
    using ins del by (simp add: apply_operation_flag after_version after_history)
qed

theorem apply_operation_clamps_witness:
  "op_type ins_far = ''insert'' \<and> int (length (content doc_abc)) \<le> position ins_far
   \<and> content (after doc_abc ins_far) = ''abcX''
   \<and> op_type del_far = ''delete'' \<and> 0 \<le> position del_far
   \<and> int (length (content doc_abc)) \<le> position del_far + int (length (op_content del_far))
   \<and> content (after doc_abc del_far) = ''ab''
   \<and> version (after doc_abc del_far) = 1"
proof -
  have i: "op_type ins_far = ''insert'' \<and> int (length (content doc_abc)) \<le> position ins_far"
    by (simp add: ex_defs Document_init_def)
  have d: "op_type del_far = ''delete'' \<and> 0 \<le> position del_far
      \<and> int (length (content doc_abc)) \<le> position del_far + int (length (op_content del_far))"
    by (simp add: ex_defs Document_init_def)
  have c: "content doc_abc = ''abc''" "op_content ins_far = ''X''" "position del_far = 2"
    "version doc_abc = 0"
    by (simp_all add: ex_defs Document_init_def)
  from apply_operation_clamps [of doc_abc ins_far] apply_operation_clamps [of doc_abc del_far]
    i d c show ?thesis by simp
qed

section \<open>Operations that are not validated\<close>

text \<open>
  C9, as the specification states it: an operation of a kind other than insert and
  delete, or with a negative position, is rejected before it is transformed or
  applied. In the source a new session accepts the operation of kind
  \<open>''replace''\<close>: it reports success, the version is 1 and the operation is in the
  history.
\<close>

theorem invalid_operation_counterexample:
  "op_type op_replace \<noteq> ''insert'' \<and> op_type op_replace \<noteq> ''delete''
   \<and> process_operation (CollaborativeSession_init ''s'' ''d'') op_replace
       = ((CollaborativeSession_init ''s'' ''d'')
            \<lparr>document := \<lparr>doc_id = ''d'', content = [], version = 1,
                           operations_history = [op_replace]\<rparr>\<rparr>,
          Success op_replace 1 [])"
  by (simp add: process_operation_def CollaborativeSession_init_def ex_defs run_defs)

text \<open>
  C9, amended: nothing is validated. An operation of a kind other than insert and
  delete is accepted by every session: the content stays, the version grows by one and
  the operation is appended to the history. An insertion with a negative position,
  submitted to a session without pending operations, is accepted too: the position is
  counted from the end of the content, and not below its start.
\<close>

theorem no_validation:
  "(op_type x \<noteq> ''insert'' \<and> op_type x \<noteq> ''delete'' \<longrightarrow>
      snd (process_operation s x) = Success x (version (document s) + 1) (content (document s))
      \<and> version (document (fst (process_operation s x))) = version (document s) + 1
      \<and> operations_history (document (fst (process_operation s x)))
          = operations_history (document s) @ [x])
   \<and> (op_type x = ''insert'' \<and> position x < 0 \<and> pending_operations s = [] \<longrightarrow>
      snd (process_operation s x)
        = Success x (version (document s) + 1)
            (take (nat (int (length (content (document s))) + position x)) (content (document s))
               @ op_content x
               @ drop (nat (int (length (content (document s))) + position x))
                   (content (document s)))
      \<and> operations_history (document (fst (process_operation s x)))
          = operations_history (document s) @ [x])"
proof -
  have other: "transform_pending (pending_operations s) x = x"
    if "op_type x \<noteq> ''insert''" "op_type x \<noteq> ''delete''"
    using that by (rule transform_pending_other)
  have neg: "content (after (document s) x)
      = take (nat (int (length (content (document s))) + position x)) (content (document s))
          @ op_content x
          @ drop (nat (int (length (content (document s))) + position x)) (content (document s))"
    if "op_type x = ''insert''" "position x < 0"
    using that by (simp add: after_def apply_operation_def Let_def slice_negative)
  show ?thesis
    using other neg
    by (simp add: process_operation_result process_operation_document after_version
          after_history after_content_other)
qed

theorem no_validation_witness:
  "op_type op_replace \<noteq> ''insert'' \<and> op_type op_replace \<noteq> ''delete''
   \<and> snd (process_operation (CollaborativeSession_init ''s'' ''d'') op_replace)
       = Success op_replace 1 []
   \<and> op_type ins_neg = ''insert'' \<and> position ins_neg < 0
   \<and> pending_operations ((CollaborativeSession_init ''s'' ''d'')\<lparr>document := doc_abc\<rparr>) = []
   \<and> snd (process_operation ((CollaborativeSession_init ''s'' ''d'')\<lparr>document := doc_abc\<rparr>) ins_neg)
       = Success ins_neg 1 ''abXc''"
proof -
  have k: "op_type op_replace \<noteq> ''insert'' \<and> op_type op_replace \<noteq> ''delete''"
    "op_type ins_neg = ''insert'' \<and> position ins_neg < 0"
    "pending_operations ((CollaborativeSession_init ''s'' ''d'')\<lparr>document := doc_abc\<rparr>) = []"
    by (simp_all add: ex_defs CollaborativeSession_init_def)
  have v: "document (CollaborativeSession_init ''s'' ''d'') = Document_init ''d'' []"
    "document ((CollaborativeSession_init ''s'' ''d'')\<lparr>document := doc_abc\<rparr>) = doc_abc"
    "content doc_abc = ''abc''" "version doc_abc = 0" "position ins_neg = - 1"
    "op_content ins_neg = ''X''" "content (Document_init ''d'' []) = []"
    "version (Document_init ''d'' []) = 0"
    by (simp_all add: ex_defs CollaborativeSession_init_def Document_init_def)
  from no_validation [of op_replace "CollaborativeSession_init ''s'' ''d''"]
    no_validation [of ins_neg "(CollaborativeSession_init ''s'' ''d'')\<lparr>document := doc_abc\<rparr>"]
    k v show ?thesis by simp
qed

section \<open>Two insertions at one position\<close>

text \<open>
  C4, as the specification states it: of two insertions at the same position the
  author identifiers decide which one moves, so that the order of the two fragments
  does not depend on which is committed first. In the source both directions of
  \<open>transform\<close> move the second argument, whatever the identifiers, and the two
  orders of commit give \<open>''LR''\<close> and \<open>''RL''\<close>.
\<close>

theorem tie_break_counterexample:
  "user_id ins_left = ''alice'' \<and> user_id ins_right = ''bob''
   \<and> position ins_left = position ins_right
   \<and> position (transform_op ins_left ins_right) = 1
   \<and> position (transform_op ins_right ins_left) = 1
   \<and> content (after (after doc_empty ins_left) (transform_op ins_left ins_right)) = ''LR''
   \<and> content (after (after doc_empty ins_right) (transform_op ins_right ins_left)) = ''RL''"
  by (simp add: ex_defs run_defs)

text \<open>
  C4, amended: for two insertions at the same position, \<open>transform a b\<close> moves \<open>b\<close>
  right by the length of the payload of \<open>a\<close> and looks at no author identifier; with
  the position inside the content, applying \<open>a\<close> and then the transformed \<open>b\<close> puts
  the payload of \<open>a\<close> directly before the payload of \<open>b\<close>: the operation committed
  first comes first.
\<close>

theorem insert_tie_commit_order:
  assumes "op_type a = ''insert''" "op_type b = ''insert''" "position a = position b"
  shows "transform_op a b = b\<lparr>position := position b + int (length (op_content a))\<rparr>
   \<and> (0 \<le> position a \<and> position a \<le> int (length (content d)) \<longrightarrow>
        content (after (after d a) (transform_op a b))
          = take (nat (position a)) (content d) @ op_content a @ op_content b
              @ drop (nat (position a)) (content d))"
proof -
  have t: "transform_op a b = b\<lparr>position := position b + int (length (op_content a))\<rparr>"
    using assms by (simp add: transform_op_def)
  have "content (after (after d a) (transform_op a b))
          = take (nat (position a)) (content d) @ op_content a @ op_content b
              @ drop (nat (position a)) (content d)"
    if r: "0 \<le> position a" "position a \<le> int (length (content d))"
  proof -
    let ?l = "take (nat (position a)) (content d)"
    let ?r = "drop (nat (position a)) (content d)"
    have l: "position a = int (length ?l)" using r by simp
    have "content (after d a) = ?l @ op_content a @ ?r"
      using assms(1) l by (intro after_insert_at) simp_all
    then have c: "content (after d a) = (?l @ op_content a) @ ?r" by simp
    have "content (after (after d a) (transform_op a b)) = (?l @ op_content a) @ op_content (transform_op a b) @ ?r"
    proof (rule after_insert_at [OF _ c])
      show "op_type (transform_op a b) = ''insert''" using assms(2) t by simp
      show "position (transform_op a b) = int (length (?l @ op_content a))"
        using t assms(3) l by simp
    qed
    then show ?thesis using t by simp
  qed
  with t show ?thesis by blast
qed

theorem insert_tie_commit_order_witness:
  "op_type ins_A = ''insert'' \<and> op_type ins_B = ''insert'' \<and> position ins_A = position ins_B
   \<and> 0 \<le> position ins_A \<and> position ins_A \<le> int (length (content doc_xy))
   \<and> content (after (after doc_xy ins_A) (transform_op ins_A ins_B)) = ''xABy''
   \<and> content (after (after doc_xy ins_B) (transform_op ins_B ins_A)) = ''xBAy''"
proof -
  have h: "op_type ins_A = ''insert''" "op_type ins_B = ''insert''"
    by (simp_all add: ex_defs)
  have e: "position ins_A = position ins_B" "position ins_B = position ins_A"
    by (simp_all add: ex_defs)
  have v: "content doc_xy = ''xy''" "position ins_A = 1" "position ins_B = 1"
    "op_content ins_A = ''A''" "op_content ins_B = ''B''"
    by (simp_all add: ex_defs Document_init_def)
  from insert_tie_commit_order [OF h(1) h(2) e(1), of doc_xy, THEN conjunct2]
    insert_tie_commit_order [OF h(2) h(1) e(2), of doc_xy, THEN conjunct2] h v
  show ?thesis by simp
qed

section \<open>Convergence\<close>

text \<open>
  Both sides of the convergence law start from the same document and the same two
  operations, each replica holding its own copies; \<open>transform_op\<close> gives the value of
  the transformed copy.
\<close>

lemma split_at3:
  assumes "p \<le> q" "q + n \<le> length c"
  shows "\<exists>l m k r. c = l @ m @ k @ r \<and> length l = p \<and> length m = q - p \<and> length k = n"
proof -
  from assms obtain l m r' where c: "c = l @ m @ r'" and l: "length l = p"
    and m: "length m = q - p"
    using split_at2 [of p q c] by auto
  from assms c l m have "n \<le> length r'" by simp
  then obtain k r where r: "r' = k @ r" and k: "length k = n"
    using split_at [of n r'] by auto
  from c r l m k show ?thesis by blast
qed

lemma conv_ins_ins:
  assumes ta: "op_type a = ''insert''" and tb: "op_type b = ''insert''"
    and r: "0 \<le> position a" "position a < position b"
      "position b \<le> int (length (content d))"
  shows "content (after (after d a) (transform_op a b))
       = content (after (after d b) (transform_op b a))"
proof -
  have n: "nat (position a) \<le> nat (position b)" "nat (position b) \<le> length (content d)"
    using r by simp_all
  obtain l m r' where c: "content d = l @ m @ r'"
    and l: "length l = nat (position a)"
    and m: "length m = nat (position b) - nat (position a)"
    using split_at2 [OF n] by blast
  have pa: "position a = int (length l)" using l r by simp
  have pb: "position b = int (length l) + int (length m)" using l m r by simp
  have t1: "transform_op a b = b\<lparr>position := position b + int (length (op_content a))\<rparr>"
    using ta tb r by (simp add: transform_op_def)
  have t2: "transform_op b a = a"
    using ta tb r by (simp add: transform_op_def)
  have a1: "content (after d a) = l @ op_content a @ m @ r'"
    using ta c pa by (rule after_insert_at)
  then have a1': "content (after d a) = (l @ op_content a @ m) @ r'" by simp
  have "content (after (after d a) (transform_op a b))
      = (l @ op_content a @ m) @ op_content (transform_op a b) @ r'"
  proof (rule after_insert_at [OF _ a1'])
    show "op_type (transform_op a b) = ''insert''" using tb t1 by simp
    show "position (transform_op a b) = int (length (l @ op_content a @ m))"
      using t1 pb by simp
  qed
  then have lhs: "content (after (after d a) (transform_op a b))
      = l @ op_content a @ m @ op_content b @ r'"
    using t1 by simp
  have c': "content d = (l @ m) @ r'" using c by simp
  have "content (after d b) = (l @ m) @ op_content b @ r'"
    using tb c' by (rule after_insert_at) (simp add: pb)
  then have b1: "content (after d b) = l @ (m @ op_content b @ r')" by simp
  have "content (after (after d b) a) = l @ op_content a @ (m @ op_content b @ r')"
    using ta b1 pa by (rule after_insert_at)
  with lhs t2 show ?thesis by simp
qed

lemma conv_ins_del:
  assumes ti: "op_type i = ''insert''" and tx: "op_type x = ''delete''"
    and vi: "0 \<le> position i" "position i \<le> int (length (content d))"
    and vx: "0 \<le> position x"
      "position x + int (length (op_content x)) \<le> int (length (content d))"
    and out: "outside i x"
  shows "content (after (after d i) (transform_op i x))
       = content (after (after d x) (transform_op x i))"
proof (cases "position i \<le> position x")
  case True
  have n: "nat (position i) \<le> nat (position x)"
    "nat (position x) + length (op_content x) \<le> length (content d)"
    using True vi vx by simp_all
  obtain l m k r where c: "content d = l @ m @ k @ r"
    and l: "length l = nat (position i)"
    and m: "length m = nat (position x) - nat (position i)"
    and k: "length k = length (op_content x)"
    using split_at3 [OF n] by blast
  have pi: "position i = int (length l)" using l vi by simp
  have px: "position x = int (length l) + int (length m)" using l m vi vx True by simp
  have t1: "transform_op i x = x\<lparr>position := position x + int (length (op_content i))\<rparr>"
    using ti tx True by (simp add: transform_op_def)
  have t2: "transform_op x i = i"
    using ti tx True by (simp add: transform_op_def)
  have "content (after d i) = l @ op_content i @ m @ k @ r"
    using ti c pi by (rule after_insert_at)
  then have a1: "content (after d i) = (l @ op_content i @ m) @ k @ r" by simp
  have "content (after (after d i) (transform_op i x)) = (l @ op_content i @ m) @ r"
  proof (rule after_delete_at [OF _ a1])
    show "op_type (transform_op i x) = ''delete''" using tx t1 by simp
    show "position (transform_op i x) = int (length (l @ op_content i @ m))"
      using t1 px by simp
    show "length (op_content (transform_op i x)) = length k" using t1 k by simp
  qed
  then have lhs: "content (after (after d i) (transform_op i x)) = l @ op_content i @ m @ r"
    by simp
  have c': "content d = (l @ m) @ k @ r" using c by simp
  have "content (after d x) = (l @ m) @ r"
    using tx c' by (rule after_delete_at) (simp_all add: px k)
  then have b1: "content (after d x) = l @ (m @ r)" by simp
  have "content (after (after d x) i) = l @ op_content i @ (m @ r)"
    using ti b1 pi by (rule after_insert_at)
  with lhs t2 show ?thesis by simp
next
  case False
  with out have after_range: "position x + int (length (op_content x)) \<le> position i"
    by (simp add: outside_def)
  have n: "nat (position x) + length (op_content x) \<le> nat (position i)"
    "nat (position i) \<le> length (content d)"
    using after_range vi vx by simp_all
  obtain l' r where c0: "content d = l' @ r" and l': "length l' = nat (position i)"
    using split_at [OF n(2)] by blast
  have n': "nat (position x) \<le> nat (position x) + length (op_content x)"
    "nat (position x) + length (op_content x) \<le> length l'"
    using n l' by simp_all
  obtain l k m where c1: "l' = l @ k @ m"
    and l: "length l = nat (position x)"
    and k': "length k = nat (position x) + length (op_content x) - nat (position x)"
    using split_at2 [OF n'] by blast
  from k' have k: "length k = length (op_content x)" by simp
  have c: "content d = l @ k @ m @ r" using c0 c1 by simp
  have px: "position x = int (length l)" using l vx by simp
  have pi: "position i = int (length l) + int (length k) + int (length m)"
    using l' c1 vi by simp
  have t1: "transform_op i x = x"
    using ti tx False by (simp add: transform_op_def)
  have t2: "transform_op x i = i\<lparr>position := position i - int (length (op_content x))\<rparr>"
    using ti tx False by (simp add: transform_op_def)
  have c': "content d = (l @ k @ m) @ r" using c by simp
  have "content (after d i) = (l @ k @ m) @ op_content i @ r"
    using ti c' by (rule after_insert_at) (simp add: pi)
  then have a1: "content (after d i) = l @ k @ (m @ op_content i @ r)" by simp
  have lhs: "content (after (after d i) x) = l @ (m @ op_content i @ r)"
    using tx a1 px by (rule after_delete_at) (simp add: k)
  have c'': "content d = l @ k @ (m @ r)" using c by simp
  have "content (after d x) = l @ (m @ r)"
    using tx c'' px by (rule after_delete_at) (simp add: k)
  then have b1: "content (after d x) = (l @ m) @ r" by simp
  have "content (after (after d x) (transform_op x i))
      = (l @ m) @ op_content (transform_op x i) @ r"
  proof (rule after_insert_at [OF _ b1])
    show "op_type (transform_op x i) = ''insert''" using ti t2 by simp
    show "position (transform_op x i) = int (length (l @ m))"
      using t2 pi k by simp
  qed
  with lhs t1 t2 show ?thesis by simp
qed

text \<open>
  C1, as the specification states it: for every pair of valid concurrent operations,
  applying \<open>a\<close> and then \<open>transform a b\<close> gives the content that applying \<open>b\<close> and
  then \<open>transform b a\<close> gives. In the source two valid insertions at position 1 of
  \<open>''xy''\<close> end as \<open>''xABy''\<close> on one side and as \<open>''xBAy''\<close> on the other.
\<close>

theorem convergence_counterexample:
  "valid_op (content doc_xy) ins_A \<and> valid_op (content doc_xy) ins_B
   \<and> content (after (after doc_xy ins_A) (transform_op ins_A ins_B)) = ''xABy''
   \<and> content (after (after doc_xy ins_B) (transform_op ins_B ins_A)) = ''xBAy''
   \<and> ''xABy'' \<noteq> ''xBAy''"
  by (simp add: valid_op_def ex_defs run_defs)

text \<open>
  C1, amended: the two orders give the same content for every pair of valid operations
  that are two insertions at different positions, or an insertion and a deletion whose
  insertion point is not strictly inside the deleted range.
\<close>

theorem convergence_apart:
  assumes va: "valid_op (content d) a" and vb: "valid_op (content d) b"
    and ap: "apart a b"
  shows "content (after (after d a) (transform_op a b))
       = content (after (after d b) (transform_op b a))"
proof -
  consider (ii) "op_type a = ''insert''" "op_type b = ''insert''"
    | (id) "op_type a = ''insert''" "op_type b = ''delete''"
    | (di) "op_type a = ''delete''" "op_type b = ''insert''"
    using ap by (auto simp: apart_def split: if_splits)
  then show ?thesis
  proof cases
    case ii
    have ra: "0 \<le> position a" "position a \<le> int (length (content d))"
      using va ii by (simp_all add: valid_op_def)
    have rb: "0 \<le> position b" "position b \<le> int (length (content d))"
      using vb ii by (simp_all add: valid_op_def)
    have ne: "position a \<noteq> position b"
      using ap ii by (simp add: apart_def)
    show ?thesis
    proof (cases "position a < position b")
      case True
      with ii ra rb show ?thesis by (intro conv_ins_ins)
    next
      case False
      with ne have "position b < position a" by simp
      with ii ra rb have "content (after (after d b) (transform_op b a))
          = content (after (after d a) (transform_op a b))"
        by (intro conv_ins_ins)
      then show ?thesis by simp
    qed
  next
    case id
    have ra: "0 \<le> position a" "position a \<le> int (length (content d))"
      using va id by (simp_all add: valid_op_def)
    have rb: "0 \<le> position b"
      "position b + int (length (op_content b)) \<le> int (length (content d))"
      using vb id by (simp_all add: valid_op_def)
    have "outside a b" using ap id by (simp add: apart_def)
    with id ra rb show ?thesis by (intro conv_ins_del)
  next
    case di
    have ra: "0 \<le> position a"
      "position a + int (length (op_content a)) \<le> int (length (content d))"
      using va di by (simp_all add: valid_op_def)
    have rb: "0 \<le> position b" "position b \<le> int (length (content d))"
      using vb di by (simp_all add: valid_op_def)
    have "outside b a" using ap di by (simp add: apart_def)
    with di ra rb have "content (after (after d b) (transform_op b a))
        = content (after (after d a) (transform_op a b))"
      by (intro conv_ins_del)
    then show ?thesis by simp
  qed
qed

theorem convergence_apart_witness:
  "valid_op (content doc_xy) ins_A \<and> valid_op (content doc_xy) ins_C \<and> apart ins_A ins_C
   \<and> content (after (after doc_xy ins_A) (transform_op ins_A ins_C)) = ''xAyC''
   \<and> content (after (after doc_xy ins_C) (transform_op ins_C ins_A)) = ''xAyC''"
proof -
  have h: "valid_op (content doc_xy) ins_A" "valid_op (content doc_xy) ins_C"
    "apart ins_A ins_C"
    by (simp_all add: valid_op_def apart_def ex_defs Document_init_def)
  have c: "content (after (after doc_xy ins_A) (transform_op ins_A ins_C)) = ''xAyC''"
    by (simp add: ex_defs run_defs)
  from convergence_apart [OF h] h c show ?thesis by simp
qed

end
